theory Spec2Isabelle
  imports Main "HOL-Library.Word" "HOL-Library.AList"
begin

unbundle bit_operations_syntax

section \<open>The Virtual Garbage Collector of \<open>VGC_simulation.cpp\<close>\<close>

subsection \<open>State and zone encodings\<close>

type_synonym u8 = "8 word"
type_synonym u32 = "32 word"

text \<open>\<open>enum class VGC_State : uint8_t\<close>, with its 3-bit encoding.\<close>

datatype VGC_State = IDLE | ACTIVE | PROMOTE | DEMOTE | PERSIST | DEFERRED | MARKED | EXPIRED

text \<open>\<open>static_cast<uint8_t>(VGC_State)\<close>.\<close>

fun state_u8 :: "VGC_State \<Rightarrow> u8" where
  "state_u8 IDLE = 0"
| "state_u8 ACTIVE = 1"
| "state_u8 PROMOTE = 2"
| "state_u8 DEMOTE = 3"
| "state_u8 PERSIST = 4"
| "state_u8 DEFERRED = 5"
| "state_u8 MARKED = 6"
| "state_u8 EXPIRED = 7"

text \<open>\<open>enum class MemoryZone : uint8_t\<close>, a one-hot mask.\<close>

datatype MemoryZone = RED | GREEN | BLUE

text \<open>\<open>static_cast<uint8_t>(MemoryZone)\<close>.\<close>

fun zone_u8 :: "MemoryZone \<Rightarrow> u8" where
  "zone_u8 RED = 1"
| "zone_u8 GREEN = 2"
| "zone_u8 BLUE = 4"

subsection \<open>Object descriptors\<close>

text \<open>
  \<open>struct VGC_Object\<close>. The field \<open>id\<close> of the source is \<open>id_obj\<close> here, since
  \<open>id\<close> is the identity function of HOL. Both \<open>zone_mask\<close> and \<open>state\<close> are full
  bytes: the struct does not restrict them to the enumerators.
\<close>

record VGC_Object =
  id_obj :: u32
  zone_mask :: u8
  state :: u8

text \<open>
  \<open>VGC_Object::state_name\<close>: the switch over \<open>static_cast<VGC_State>(state)\<close>, with its
  default branch for a byte that is no enumerator.
\<close>

definition state_name :: "VGC_Object \<Rightarrow> string" where
  "state_name obj =
     (if state obj = state_u8 IDLE then ''IDLE''
      else if state obj = state_u8 ACTIVE then ''ACTIVE''
      else if state obj = state_u8 PROMOTE then ''PROMOTE''
      else if state obj = state_u8 DEMOTE then ''DEMOTE''
      else if state obj = state_u8 PERSIST then ''PERSIST''
      else if state obj = state_u8 DEFERRED then ''DEFERRED''
      else if state obj = state_u8 MARKED then ''MARKED''
      else if state obj = state_u8 EXPIRED then ''EXPIRED''
      else ''UNKNOWN'')"

text \<open>\<open>VGC_Object::zone_name\<close>.\<close>

definition zone_name :: "VGC_Object \<Rightarrow> string" where
  "zone_name obj =
     (if zone_mask obj = zone_u8 RED then ''RED''
      else if zone_mask obj = zone_u8 GREEN then ''GREEN''
      else if zone_mask obj = zone_u8 BLUE then ''BLUE''
      else ''MIXED_ZONE'')"

subsection \<open>The liveness equation\<close>

text \<open>
  \<open>VGC_Manager::evaluate_liveness\<close>. The method reads no member of the manager, so the
  model takes the descriptor and the pending mask only. The bitwise operators of the
  source work on promoted \<open>int\<close>s and the result is narrowed to \<open>uint8_t\<close>; on bytes that
  is the bitwise operation on 8-bit words.
\<close>

definition evaluate_liveness :: "VGC_Object \<Rightarrow> u8 \<Rightarrow> bool" where
  "evaluate_liveness obj pending_mask =
     (let current_state = state obj;
          zone_mask = zone_mask obj;
          pending_ops = pending_mask
      in if current_state = state_u8 EXPIRED then False
         else if current_state = state_u8 PERSIST then True
         else (let liveness_score = (current_state AND zone_mask) OR (current_state AND pending_ops)
               in liveness_score > 0 \<or> current_state = state_u8 ACTIVE))"

text \<open>The default argument \<open>pending_mask = 0\<close>.\<close>

definition evaluate_liveness_default :: "VGC_Object \<Rightarrow> bool" where
  "evaluate_liveness_default obj = evaluate_liveness obj 0"

subsection \<open>Text written to the streams\<close>

text \<open>
  \<open>operator<<\<close> on an unsigned integer writes its decimal digits. \<open>show_nat\<close> is that
  rendering; \<open>show_u32\<close> applies it to a \<open>uint32_t\<close>.
\<close>

definition digit_char :: "nat \<Rightarrow> char" where
  "digit_char n = ''0123456789'' ! (n mod 10)"

fun show_nat :: "nat \<Rightarrow> string" where
  "show_nat n = (if n < 10 then [digit_char n] else show_nat (n div 10) @ [digit_char (n mod 10)])"

declare show_nat.simps [simp del]

definition show_u32 :: "u32 \<Rightarrow> string" where
  "show_u32 w = show_nat (unat w)"

text \<open>The three bytes of the bullet U+2022 in the reclamation line of \<open>sweep\<close>.\<close>

definition bullet :: string where
  "bullet = [CHR 0xE2, CHR 0x80, CHR 0xA2]"

subsection \<open>The heap and the streams\<close>

text \<open>
  The member \<open>heap\<close> is a \<open>std::unordered_map<uint32_t, VGC_Object>\<close>. It is modelled as
  an association list: lookup is \<open>map_of\<close>, \<open>heap[id] = v\<close> is \<open>AList.update\<close> (it
  replaces the entry in place, or adds one), \<open>heap.erase(id)\<close> is \<open>AList.delete\<close>, and the
  order of the list stands for the iteration order of the container, which C++ leaves
  unspecified. A new key goes to the end of the list, where a real container may put it
  anywhere; erasing keeps the order of the other entries, as C++ guarantees. A container
  never holds a key twice; \<open>heap_ok\<close> states that of the list.
\<close>

type_synonym heap_t = "(u32 \<times> VGC_Object) list"

definition heap_ok :: "heap_t \<Rightarrow> bool" where
  "heap_ok h = distinct (map fst h)"

text \<open>\<open>heap.count(id)\<close>: 0 or 1.\<close>

definition heap_count :: "heap_t \<Rightarrow> u32 \<Rightarrow> nat" where
  "heap_count h k = (case map_of h k of None \<Rightarrow> 0 | Some _ \<Rightarrow> 1)"

text \<open>
  \<open>heap[id]\<close> read as an rvalue: the entry when there is one; otherwise a
  value-initialised descriptor is inserted and returned.
\<close>

definition heap_subscript :: "heap_t \<Rightarrow> u32 \<Rightarrow> heap_t \<times> VGC_Object" where
  "heap_subscript h k =
     (case map_of h k of
        Some obj \<Rightarrow> (h, obj)
      | None \<Rightarrow> (h @ [(k, \<lparr>id_obj = 0, zone_mask = 0, state = 0\<rparr>)],
                 \<lparr>id_obj = 0, zone_mask = 0, state = 0\<rparr>))"

text \<open>
  What the operations and the callbacks can change: the heap of the manager and the two
  process-wide streams \<open>std::cout\<close> and \<open>std::cerr\<close>, each the text written so far.
\<close>

record world =
  heap :: heap_t
  cout :: string
  cerr :: string

definition put_cout :: "string \<Rightarrow> world \<Rightarrow> world" where
  "put_cout s w = w\<lparr>cout := cout w @ s\<rparr>"

definition put_cerr :: "string \<Rightarrow> world \<Rightarrow> world" where
  "put_cerr s w = w\<lparr>cerr := cerr w @ s\<rparr>"

text \<open>
  A call either returns or leaves by an exception; both carry the world as it is at that
  point, since C++ does not undo the effects that came before a throw.
\<close>

datatype 'a outcome = is_Returns: Returns (final: 'a) | is_Throws: Throws (final: 'a)

text \<open>
  A \<open>std::function<void()>\<close> and a \<open>std::function<void(size_t)>\<close>: arbitrary code that
  may write to the streams, reach the heap through a captured reference to the manager,
  and throw (calling an empty \<open>std::function\<close> throws too). Callbacks that do not return
  at all, or that change the callback vectors while \<open>sweep\<close> iterates them, are outside
  the model.
\<close>

type_synonym pre_callback = "world \<Rightarrow> world outcome"
type_synonym post_callback = "nat \<Rightarrow> world \<Rightarrow> world outcome"

text \<open>\<open>class VGC_Manager\<close>, together with the streams it writes to.\<close>

record VGC_Manager =
  world :: world
  pre_sweep_callbacks :: "pre_callback list"
  post_sweep_callbacks :: "post_callback list"

subsection \<open>Allocation and state transitions\<close>

text \<open>\<open>VGC_Manager::allocate\<close>.\<close>

definition allocate :: "u32 \<Rightarrow> MemoryZone \<Rightarrow> VGC_State \<Rightarrow> VGC_Manager \<Rightarrow> VGC_Manager" where
  "allocate k zone initial_state m =
     (let w0 = world m;
          w1 = (if heap_count (heap w0) k \<noteq> 0
                then put_cerr (''Warning: Object '' @ show_u32 k @ '' already exists. Overwriting.\<newline>'') w0
                else w0);
          new_object = \<lparr>id_obj = k, zone_mask = zone_u8 zone, state = state_u8 initial_state\<rparr>;
          w2 = w1\<lparr>heap := AList.update k new_object (heap w1)\<rparr>;
          w3 = put_cout (''Allocated object '' @ show_u32 k @ '' in '' @ zone_name new_object
                         @ '' zone with state: '' @ state_name new_object @ ''\<newline>'') w2
      in m\<lparr>world := w3\<rparr>)"

text \<open>The default argument \<open>initial_state = VGC_State::ACTIVE\<close>.\<close>

definition allocate_default :: "u32 \<Rightarrow> MemoryZone \<Rightarrow> VGC_Manager \<Rightarrow> VGC_Manager" where
  "allocate_default k zone m = allocate k zone ACTIVE m"

text \<open>
  \<open>VGC_Manager::transition_state\<close>. The found entry is changed through the iterator, in
  place.
\<close>

definition transition_state :: "u32 \<Rightarrow> VGC_State \<Rightarrow> VGC_Manager \<Rightarrow> VGC_Manager" where
  "transition_state k new_state m =
     (let w0 = world m
      in case map_of (heap w0) k of
           Some obj \<Rightarrow>
             (let old_state = state obj;
                  obj' = obj\<lparr>state := state_u8 new_state\<rparr>;
                  w1 = w0\<lparr>heap := AList.update k obj' (heap w0)\<rparr>;
                  temp = obj'\<lparr>state := old_state\<rparr>;
                  w2 = put_cout (''Object '' @ show_u32 k @ '' transitioned: '' @ state_name obj'
                                 @ '' (was: '' @ state_name temp @ '')\<newline>'') w1
              in m\<lparr>world := w2\<rparr>)
         | None \<Rightarrow>
             m\<lparr>world := put_cerr (''Error: Cannot transition state. Object '' @ show_u32 k
                                  @ '' not found.\<newline>'') w0\<rparr>)"

text \<open>\<open>VGC_Manager::object_count\<close>.\<close>

definition object_count :: "VGC_Manager \<Rightarrow> nat" where
  "object_count m = length (heap (world m))"

subsection \<open>Callbacks and the sweep\<close>

text \<open>\<open>register_pre_sweep_callback\<close> and \<open>register_post_sweep_callback\<close>: \<open>push_back\<close>.\<close>

definition register_pre_sweep_callback :: "pre_callback \<Rightarrow> VGC_Manager \<Rightarrow> VGC_Manager" where
  "register_pre_sweep_callback callback m =
     m\<lparr>pre_sweep_callbacks := pre_sweep_callbacks m @ [callback]\<rparr>"

definition register_post_sweep_callback :: "post_callback \<Rightarrow> VGC_Manager \<Rightarrow> VGC_Manager" where
  "register_post_sweep_callback callback m =
     m\<lparr>post_sweep_callbacks := post_sweep_callbacks m @ [callback]\<rparr>"

text \<open>
  The first loop of \<open>sweep\<close>: the callbacks run front to back, and an exception leaves
  the loop (and \<open>sweep\<close>: there is no handler).
\<close>

primrec run_pre_sweep_callbacks :: "pre_callback list \<Rightarrow> world \<Rightarrow> world outcome" where
  "run_pre_sweep_callbacks [] w = Returns w"
| "run_pre_sweep_callbacks (callback # rest) w =
     (case callback w of
        Throws w' \<Rightarrow> Throws w'
      | Returns w' \<Rightarrow> run_pre_sweep_callbacks rest w')"

text \<open>The second loop: the ids of the descriptors that are not alive, in iteration order.\<close>

primrec collect_objects_to_reclaim :: "u8 \<Rightarrow> heap_t \<Rightarrow> u32 list" where
  "collect_objects_to_reclaim pending_mask [] = []"
| "collect_objects_to_reclaim pending_mask (entry # rest) =
     (if \<not> evaluate_liveness (snd entry) pending_mask
      then fst entry # collect_objects_to_reclaim pending_mask rest
      else collect_objects_to_reclaim pending_mask rest)"

text \<open>The third loop: read \<open>heap[id]\<close>, report it, erase it.\<close>

primrec reclaim_objects :: "u32 list \<Rightarrow> world \<Rightarrow> world" where
  "reclaim_objects [] w = w"
| "reclaim_objects (k # rest) w =
     (let (h1, obj) = heap_subscript (heap w) k;
          w1 = put_cout (''  '' @ bullet @ '' Object '' @ show_u32 k
                         @ '' (Zone: '' @ zone_name obj
                         @ '', State: '' @ state_name obj @ '')\<newline>'') (w\<lparr>heap := h1\<rparr>);
          w2 = w1\<lparr>heap := AList.delete k (heap w1)\<rparr>
      in reclaim_objects rest w2)"

text \<open>The last loop: every callback gets \<open>objects_to_reclaim.size()\<close>.\<close>

primrec run_post_sweep_callbacks :: "post_callback list \<Rightarrow> nat \<Rightarrow> world \<Rightarrow> world outcome" where
  "run_post_sweep_callbacks [] n w = Returns w"
| "run_post_sweep_callbacks (callback # rest) n w =
     (case callback n w of
        Throws w' \<Rightarrow> Throws w'
      | Returns w' \<Rightarrow> run_post_sweep_callbacks rest n w')"

text \<open>
  The middle of \<open>sweep\<close>, from the candidate list to the end of the reclamation: the world
  in which the post-sweep callbacks start.
\<close>

definition report_and_reclaim :: "u32 list \<Rightarrow> world \<Rightarrow> world" where
  "report_and_reclaim objects_to_reclaim w =
     (if objects_to_reclaim \<noteq> []
      then reclaim_objects objects_to_reclaim
             (put_cout (''Reclaiming '' @ show_nat (length objects_to_reclaim)
                        @ '' object(s):\<newline>'') w)
      else put_cout ''No objects eligible for reclamation.\<newline>'' w)"

text \<open>
  \<open>VGC_Manager::sweep\<close>. The result is the world in which the call returns or throws;
  the callback vectors are not changed.
\<close>

definition sweep :: "u8 \<Rightarrow> VGC_Manager \<Rightarrow> world outcome" where
  "sweep pending_mask m =
     (let w0 = put_cout ''\<newline>--- Initiating VGC Collection Cycle ---\<newline>'' (world m)
      in case run_pre_sweep_callbacks (pre_sweep_callbacks m) w0 of
           Throws w1 \<Rightarrow> Throws w1
         | Returns w1 \<Rightarrow>
             (let objects_to_reclaim = collect_objects_to_reclaim pending_mask (heap w1);
                  w2 = report_and_reclaim objects_to_reclaim w1
              in case run_post_sweep_callbacks (post_sweep_callbacks m)
                        (length objects_to_reclaim) w2 of
                   Throws w3 \<Rightarrow> Throws w3
                 | Returns w3 \<Rightarrow>
                     Returns (put_cout ''--- Collection Cycle Complete ---\<newline>'' w3)))"

text \<open>The default argument \<open>pending_mask = 0\<close>.\<close>

definition sweep_default :: "VGC_Manager \<Rightarrow> world outcome" where
  "sweep_default m = sweep 0 m"

text \<open>The manager after a sweep: the same callbacks, the world the sweep ended in.\<close>

definition after_sweep :: "u8 \<Rightarrow> VGC_Manager \<Rightarrow> VGC_Manager" where
  "after_sweep pending_mask m = m\<lparr>world := final (sweep pending_mask m)\<rparr>"

text \<open>A freshly constructed manager, before anything was written.\<close>

definition new_manager :: VGC_Manager where
  "new_manager = \<lparr>world = \<lparr>heap = [], cout = [], cerr = []\<rparr>,
                  pre_sweep_callbacks = [], post_sweep_callbacks = []\<rparr>"

subsection \<open>The set-up of \<open>main\<close>\<close>

text \<open>The two lambdas that \<open>main\<close> registers, and the manager after its Phase 1.\<close>

definition main_pre_callback :: pre_callback where
  "main_pre_callback w = Returns (put_cout ''[Pre-sweep] Pausing application threads...\<newline>'' w)"

definition main_post_callback :: post_callback where
  "main_post_callback reclaimed_count w =
     Returns (put_cout (''[Post-sweep] Resuming application threads. ''
                        @ show_nat reclaimed_count @ '' objects reclaimed.\<newline>'') w)"

definition main_registered :: VGC_Manager where
  "main_registered =
     register_post_sweep_callback main_post_callback
       (register_pre_sweep_callback main_pre_callback new_manager)"

definition main_phase1 :: VGC_Manager where
  "main_phase1 =
     allocate 105 RED ACTIVE
       (allocate 104 GREEN IDLE
         (allocate 103 BLUE PERSIST
           (allocate 102 RED MARKED
             (allocate 101 GREEN ACTIVE main_registered))))"

text \<open>
  A second post-sweep callback for the examples below; it is not in the source. It
  writes the count it is given.
\<close>

definition echo_post_callback :: post_callback where
  "echo_post_callback reclaimed_count w =
     Returns (put_cout (''[echo] '' @ show_nat reclaimed_count @ ''\<newline>'') w)"

text \<open>
  Two more post-sweep callbacks for the examples, not in the source either. The first
  throws at once. The second writes the count it is given and then allocates descriptor 1
  again, as a lambda that captured the manager by reference can.
\<close>

definition failing_post_callback :: post_callback where
  "failing_post_callback reclaimed_count w = Throws w"

definition reviving_post_callback :: post_callback where
  "reviving_post_callback reclaimed_count w =
     Returns (world (allocate 1 RED ACTIVE
                \<lparr>world = put_cout (''[revive] '' @ show_nat reclaimed_count @ ''\<newline>'') w,
                 pre_sweep_callbacks = [], post_sweep_callbacks = []\<rparr>))"

subsection \<open>Assumptions on callbacks\<close>

text \<open>
  The callbacks are code of the caller. Two properties of them are used as hypotheses:
  a callback \<^emph>\<open>observes\<close> when the heap is the same after it as before it, whatever
  else it does and whether it returns or throws; it \<^emph>\<open>returns\<close> when it never throws.
\<close>

definition pre_observe :: "pre_callback list \<Rightarrow> bool" where
  "pre_observe callbacks = (\<forall>callback \<in> set callbacks. \<forall>w. heap (final (callback w)) = heap w)"

definition post_observe :: "post_callback list \<Rightarrow> bool" where
  "post_observe callbacks =
     (\<forall>callback \<in> set callbacks. \<forall>n w. heap (final (callback n w)) = heap w)"

definition hooks_observe :: "VGC_Manager \<Rightarrow> bool" where
  "hooks_observe m = (pre_observe (pre_sweep_callbacks m) \<and> post_observe (post_sweep_callbacks m))"

definition pre_return :: "pre_callback list \<Rightarrow> bool" where
  "pre_return callbacks = (\<forall>callback \<in> set callbacks. \<forall>w. is_Returns (callback w))"

definition post_return :: "post_callback list \<Rightarrow> bool" where
  "post_return callbacks = (\<forall>callback \<in> set callbacks. \<forall>n w. is_Returns (callback n w))"

definition hooks_return :: "VGC_Manager \<Rightarrow> bool" where
  "hooks_return m = (pre_return (pre_sweep_callbacks m) \<and> post_return (post_sweep_callbacks m))"

section \<open>Facts about the heap operations\<close>

lemma heap_put_cout [simp]: "heap (put_cout s w) = heap w"
  by (simp add: put_cout_def)

lemma heap_put_cerr [simp]: "heap (put_cerr s w) = heap w"
  by (simp add: put_cerr_def)

lemma delete_as_filter: "AList.delete k h = filter (\<lambda>e. fst e \<noteq> k) h"
  by (induction h) auto

lemma delete_fst_heap_subscript: "AList.delete k (fst (heap_subscript h k)) = AList.delete k h"
  by (simp add: heap_subscript_def delete_as_filter split: option.splits)

lemma heap_reclaim_objects:
  "heap (reclaim_objects ks w) = filter (\<lambda>e. fst e \<notin> set ks) (heap w)"
proof (induction ks arbitrary: w)
  case Nil
  then show ?case by simp
next
  case (Cons k ks)
  obtain h1 obj where sub: "heap_subscript (heap w) k = (h1, obj)"
    by (cases "heap_subscript (heap w) k")
  have "AList.delete k h1 = AList.delete k (heap w)"
    using delete_fst_heap_subscript [of k "heap w"] sub by simp
  then show ?case
    using Cons.IH sub by (simp add: delete_as_filter conj_commute)
qed

lemma heap_report_and_reclaim:
  "heap (report_and_reclaim ks w) = filter (\<lambda>e. fst e \<notin> set ks) (heap w)"
  by (simp add: report_and_reclaim_def heap_reclaim_objects)

lemma collect_as_filter:
  "collect_objects_to_reclaim p h = map fst (filter (\<lambda>e. \<not> evaluate_liveness (snd e) p) h)"
  by (induction h) auto

lemma distinct_key_in_collect:
  assumes "heap_ok h" and "e \<in> set h"
  shows "fst e \<in> set (collect_objects_to_reclaim p h) \<longleftrightarrow> \<not> evaluate_liveness (snd e) p"
proof
  assume "fst e \<in> set (collect_objects_to_reclaim p h)"
  then obtain e' where e': "e' \<in> set h" "\<not> evaluate_liveness (snd e') p" "fst e' = fst e"
    by (auto simp: collect_as_filter)
  from assms e' have "e' = e"
    by (metis eq_key_imp_eq_value heap_ok_def prod.collapse)
  with e' show "\<not> evaluate_liveness (snd e) p" by simp
next
  assume "\<not> evaluate_liveness (snd e) p"
  with assms show "fst e \<in> set (collect_objects_to_reclaim p h)"
    by (auto simp: collect_as_filter)
qed

lemma filter_collected:
  assumes "heap_ok h"
  shows "filter (\<lambda>e. fst e \<notin> set (collect_objects_to_reclaim p h)) h
         = filter (\<lambda>e. evaluate_liveness (snd e) p) h"
  using distinct_key_in_collect [OF assms] by (auto intro: filter_cong)

lemma heap_after_reclaim:
  "heap_ok (heap w) \<Longrightarrow>
   heap (report_and_reclaim (collect_objects_to_reclaim p (heap w)) w)
   = filter (\<lambda>e. evaluate_liveness (snd e) p) (heap w)"
  by (simp add: heap_report_and_reclaim filter_collected)

lemma collect_filter_alive:
  "collect_objects_to_reclaim p (filter (\<lambda>e. evaluate_liveness (snd e) p) h) = []"
  by (simp add: collect_as_filter)

lemma length_collect:
  "length (collect_objects_to_reclaim p h)
   = length h - length (filter (\<lambda>e. evaluate_liveness (snd e) p) h)"
proof -
  have "length (filter (\<lambda>e. evaluate_liveness (snd e) p) h)
        + length (filter (\<lambda>e. \<not> evaluate_liveness (snd e) p) h) = length h"
    by (rule sum_length_filter_compl)
  then show ?thesis by (simp add: collect_as_filter)
qed

lemma heap_ok_filter: "heap_ok h \<Longrightarrow> heap_ok (filter P h)"
  by (simp add: heap_ok_def distinct_map_filter)

lemma heap_ok_update: "heap_ok h \<Longrightarrow> heap_ok (AList.update k v h)"
  by (simp add: heap_ok_def distinct_update)

lemma map_of_Some_count: "map_of h k = Some v \<Longrightarrow> heap_count h k \<noteq> 0"
  by (simp add: heap_count_def)

lemma filter_key_update:
  "heap_ok h \<Longrightarrow> filter (\<lambda>e. fst e = k) (AList.update k v h) = [(k, v)]"
proof (induction h)
  case Nil
  then show ?case by simp
next
  case (Cons e h)
  show ?case
  proof (cases "fst e = k")
    case True
    with Cons.prems have "k \<notin> fst ` set h" by (auto simp: heap_ok_def)
    then have "filter (\<lambda>e. fst e = k) h = []" by (auto simp: filter_empty_conv)
    with True show ?thesis by simp
  next
    case False
    with Cons show ?thesis by (simp add: heap_ok_def)
  qed
qed

lemma filter_other_update:
  "filter (\<lambda>e. fst e \<noteq> k) (AList.update k v h) = filter (\<lambda>e. fst e \<noteq> k) h"
  by (induction h) auto

lemma length_heap_update:
  "length (AList.update k v h) = (if map_of h k = None then length h + 1 else length h)"
  by (induction h) auto

lemma heap_allocate:
  "heap (world (allocate k zone st m))
   = AList.update k \<lparr>id_obj = k, zone_mask = zone_u8 zone, state = state_u8 st\<rparr> (heap (world m))"
  by (simp add: allocate_def Let_def)

lemma cerr_allocate:
  "cerr (world (allocate k zone st m))
   = (if heap_count (heap (world m)) k \<noteq> 0
      then cerr (world m) @ ''Warning: Object '' @ show_u32 k @ '' already exists. Overwriting.\<newline>''
      else cerr (world m))"
  by (simp add: allocate_def Let_def put_cout_def put_cerr_def)

text \<open>\<open>heap_ok\<close> holds of a new manager and is kept by every operation on the heap.\<close>

lemma heap_ok_new_manager: "heap_ok (heap (world new_manager))"
  by (simp add: new_manager_def heap_ok_def)

lemma heap_ok_allocate:
  "heap_ok (heap (world m)) \<Longrightarrow> heap_ok (heap (world (allocate k zone st m)))"
  by (simp add: heap_allocate heap_ok_update)

lemma heap_ok_transition_state:
  "heap_ok (heap (world m)) \<Longrightarrow> heap_ok (heap (world (transition_state k new_state m)))"
  by (simp add: transition_state_def Let_def heap_ok_update split: option.splits)

lemma heap_ok_report_and_reclaim:
  "heap_ok (heap w) \<Longrightarrow> heap_ok (heap (report_and_reclaim ks w))"
  by (simp add: heap_report_and_reclaim heap_ok_filter)

section \<open>Facts about the callback loops and the sweep\<close>

lemma run_pre_heap:
  "pre_observe cbs \<Longrightarrow> heap (final (run_pre_sweep_callbacks cbs w)) = heap w"
proof (induction cbs arbitrary: w)
  case Nil
  then show ?case by simp
next
  case (Cons cb cbs)
  from Cons.prems have cb: "heap (final (cb w)) = heap w" and rest: "pre_observe cbs"
    by (simp_all add: pre_observe_def)
  show ?case
  proof (cases "cb w")
    case (Returns w')
    with cb Cons.IH [OF rest, of w'] show ?thesis by simp
  next
    case (Throws w')
    with cb show ?thesis by simp
  qed
qed

lemma run_post_heap:
  "post_observe cbs \<Longrightarrow> heap (final (run_post_sweep_callbacks cbs n w)) = heap w"
proof (induction cbs arbitrary: w)
  case Nil
  then show ?case by simp
next
  case (Cons cb cbs)
  from Cons.prems have cb: "heap (final (cb n w)) = heap w" and rest: "post_observe cbs"
    by (simp_all add: post_observe_def)
  show ?case
  proof (cases "cb n w")
    case (Returns w')
    with cb Cons.IH [OF rest, of w'] show ?thesis by simp
  next
    case (Throws w')
    with cb show ?thesis by simp
  qed
qed

lemma run_pre_returns:
  "pre_return cbs \<Longrightarrow> is_Returns (run_pre_sweep_callbacks cbs w)"
proof (induction cbs arbitrary: w)
  case Nil
  then show ?case by simp
next
  case (Cons cb cbs)
  from Cons.prems have cb: "is_Returns (cb w)" and rest: "pre_return cbs"
    by (simp_all add: pre_return_def)
  from cb obtain w' where "cb w = Returns w'" by (cases "cb w") simp_all
  with Cons.IH [OF rest, of w'] show ?case by simp
qed

lemma run_post_returns:
  "post_return cbs \<Longrightarrow> is_Returns (run_post_sweep_callbacks cbs n w)"
proof (induction cbs arbitrary: w)
  case Nil
  then show ?case by simp
next
  case (Cons cb cbs)
  from Cons.prems have cb: "is_Returns (cb n w)" and rest: "post_return cbs"
    by (simp_all add: post_return_def)
  from cb obtain w' where "cb n w = Returns w'" by (cases "cb n w") simp_all
  with Cons.IH [OF rest, of w'] show ?case by simp
qed

lemma run_pre_throws:
  "\<exists>cb \<in> set cbs. \<forall>w. is_Throws (cb w) \<Longrightarrow> is_Throws (run_pre_sweep_callbacks cbs w)"
proof (induction cbs arbitrary: w)
  case Nil
  then show ?case by simp
next
  case (Cons cb cbs)
  show ?case
  proof (cases "cb w")
    case (Throws w')
    then show ?thesis by simp
  next
    case (Returns w')
    with Cons.prems have "\<exists>c \<in> set cbs. \<forall>w. is_Throws (c w)"
      by (metis outcome.disc(3) set_ConsD)
    from Cons.IH [OF this, of w'] Returns show ?thesis by simp
  qed
qed

text \<open>The shape of a sweep whose pre-sweep callbacks have returned.\<close>

lemma sweep_after_pre:
  assumes "run_pre_sweep_callbacks (pre_sweep_callbacks m)
             (put_cout ''\<newline>--- Initiating VGC Collection Cycle ---\<newline>'' (world m)) = Returns w1"
  shows "sweep p m =
           (case run_post_sweep_callbacks (post_sweep_callbacks m)
                   (length (collect_objects_to_reclaim p (heap w1)))
                   (report_and_reclaim (collect_objects_to_reclaim p (heap w1)) w1) of
              Throws w3 \<Rightarrow> Throws w3
            | Returns w3 \<Rightarrow> Returns (put_cout ''--- Collection Cycle Complete ---\<newline>'' w3))"
  using assms by (simp add: sweep_def Let_def)

lemma sweep_pre_throws:
  assumes "run_pre_sweep_callbacks (pre_sweep_callbacks m)
             (put_cout ''\<newline>--- Initiating VGC Collection Cycle ---\<newline>'' (world m)) = Throws w1"
  shows "sweep p m = Throws w1"
  using assms by (simp add: sweep_def Let_def)

lemma sweep_Returns_pre:
  assumes "sweep p m = Returns w'"
  obtains w1 where "run_pre_sweep_callbacks (pre_sweep_callbacks m)
             (put_cout ''\<newline>--- Initiating VGC Collection Cycle ---\<newline>'' (world m)) = Returns w1"
  using assms by (auto simp: sweep_def Let_def split: outcome.splits)

lemma heap_final_finish:
  "heap (final (case r of Throws w3 \<Rightarrow> Throws w3 | Returns w3 \<Rightarrow> Returns (put_cout s w3)))
   = heap (final r)"
  by (cases r) simp_all

lemma sweep_heap_after_pre:
  assumes pre: "run_pre_sweep_callbacks (pre_sweep_callbacks m)
             (put_cout ''\<newline>--- Initiating VGC Collection Cycle ---\<newline>'' (world m)) = Returns w1"
      and ok: "heap_ok (heap (world m))"
      and obs: "hooks_observe m"
  shows "heap (final (sweep p m)) = filter (\<lambda>e. evaluate_liveness (snd e) p) (heap (world m))"
proof -
  have h1: "heap w1 = heap (world m)"
    using run_pre_heap [of "pre_sweep_callbacks m"
        "put_cout ''\<newline>--- Initiating VGC Collection Cycle ---\<newline>'' (world m)"] obs pre
    by (simp add: hooks_observe_def)
  have post: "post_observe (post_sweep_callbacks m)"
    using obs by (simp add: hooks_observe_def)
  have ok1: "heap_ok (heap w1)"
    using ok h1 by simp
  have "heap (final (sweep p m))
        = heap (report_and_reclaim (collect_objects_to_reclaim p (heap w1)) w1)"
    by (simp add: sweep_after_pre [OF pre] heap_final_finish run_post_heap [OF post])
  also have "\<dots> = filter (\<lambda>e. evaluate_liveness (snd e) p) (heap w1)"
    by (rule heap_after_reclaim [OF ok1])
  finally show ?thesis by (simp add: h1)
qed

lemma sweep_returns:
  assumes "hooks_return m"
  shows "is_Returns (sweep p m)"
proof -
  from assms have pre: "pre_return (pre_sweep_callbacks m)"
    and post: "post_return (post_sweep_callbacks m)"
    by (simp_all add: hooks_return_def)
  obtain w1 where w1: "run_pre_sweep_callbacks (pre_sweep_callbacks m)
             (put_cout ''\<newline>--- Initiating VGC Collection Cycle ---\<newline>'' (world m)) = Returns w1"
    using run_pre_returns [OF pre] by (metis outcome.collapse(1))
  obtain w3 where "run_post_sweep_callbacks (post_sweep_callbacks m)
                   (length (collect_objects_to_reclaim p (heap w1)))
                   (report_and_reclaim (collect_objects_to_reclaim p (heap w1)) w1) = Returns w3"
    using run_post_returns [OF post] by (metis outcome.collapse(1))
  then show ?thesis by (simp add: sweep_after_pre [OF w1])
qed

lemma foldl_Throws:
  "foldl (\<lambda>r callback. case r of Returns w \<Rightarrow> callback n w | Throws w \<Rightarrow> Throws w) (Throws w') cbs
   = Throws w'"
  by (induction cbs) simp_all

lemma run_post_foldl:
  "run_post_sweep_callbacks cbs n w
   = foldl (\<lambda>r callback. case r of Returns w \<Rightarrow> callback n w | Throws w \<Rightarrow> Throws w) (Returns w) cbs"
proof (induction cbs arbitrary: w)
  case Nil
  then show ?case by simp
next
  case (Cons cb cbs)
  show ?case
  proof (cases "cb n w")
    case (Returns w')
    with Cons.IH [of w'] show ?thesis by simp
  next
    case (Throws w')
    then show ?thesis by (simp add: foldl_Throws)
  qed
qed

lemma heap_main_phase1:
  "heap (world main_phase1) =
     [(101, \<lparr>id_obj = 101, zone_mask = 2, state = 1\<rparr>),
      (102, \<lparr>id_obj = 102, zone_mask = 1, state = 6\<rparr>),
      (103, \<lparr>id_obj = 103, zone_mask = 4, state = 4\<rparr>),
      (104, \<lparr>id_obj = 104, zone_mask = 2, state = 0\<rparr>),
      (105, \<lparr>id_obj = 105, zone_mask = 1, state = 1\<rparr>)]"
  by (simp add: main_phase1_def heap_allocate main_registered_def new_manager_def
      register_post_sweep_callback_def register_pre_sweep_callback_def)

lemma callbacks_allocate:
  "pre_sweep_callbacks (allocate k zone st m) = pre_sweep_callbacks m"
  "post_sweep_callbacks (allocate k zone st m) = post_sweep_callbacks m"
  by (simp_all add: allocate_def Let_def)

lemma callbacks_main_phase1:
  "pre_sweep_callbacks main_phase1 = [main_pre_callback]"
  "post_sweep_callbacks main_phase1 = [main_post_callback]"
  by (simp_all add: main_phase1_def callbacks_allocate main_registered_def new_manager_def
      register_post_sweep_callback_def register_pre_sweep_callback_def)

lemma main_phase1_ok: "heap_ok (heap (world main_phase1))"
  by (simp add: heap_main_phase1 heap_ok_def)

lemma main_phase1_observe: "hooks_observe main_phase1"
  by (simp add: hooks_observe_def pre_observe_def post_observe_def callbacks_main_phase1
      main_pre_callback_def main_post_callback_def)

lemma main_phase1_return: "hooks_return main_phase1"
  by (simp add: hooks_return_def pre_return_def post_return_def callbacks_main_phase1
      main_pre_callback_def main_post_callback_def)

lemma filter_alive_main_phase1:
  "filter (\<lambda>e. evaluate_liveness (snd e) 0) (heap (world main_phase1)) =
     [(101, \<lparr>id_obj = 101, zone_mask = 2, state = 1\<rparr>),
      (103, \<lparr>id_obj = 103, zone_mask = 4, state = 4\<rparr>),
      (105, \<lparr>id_obj = 105, zone_mask = 1, state = 1\<rparr>)]"
  by (simp add: heap_main_phase1 evaluate_liveness_def)

section \<open>Facts used by the examples\<close>

lemma show_nat_digit: "n < 10 \<Longrightarrow> show_nat n = [digit_char n]"
  by (simp add: show_nat.simps)

lemma world_new_allocate_7:
  "heap (world (allocate 7 RED MARKED new_manager)) = [(7, \<lparr>id_obj = 7, zone_mask = 1, state = 6\<rparr>)]"
  "cerr (world (allocate 7 RED MARKED new_manager)) = []"
  by (simp_all add: heap_allocate cerr_allocate new_manager_def heap_count_def)

lemma register_post_fields:
  "world (register_post_sweep_callback cb m) = world m"
  "pre_sweep_callbacks (register_post_sweep_callback cb m) = pre_sweep_callbacks m"
  "post_sweep_callbacks (register_post_sweep_callback cb m) = post_sweep_callbacks m @ [cb]"
  by (simp_all add: register_post_sweep_callback_def)

lemma register_pre_fields:
  "world (register_pre_sweep_callback cb m) = world m"
  "pre_sweep_callbacks (register_pre_sweep_callback cb m) = pre_sweep_callbacks m @ [cb]"
  "post_sweep_callbacks (register_pre_sweep_callback cb m) = post_sweep_callbacks m"
  by (simp_all add: register_pre_sweep_callback_def)

text \<open>
  When no post-sweep callback throws, the loop is a plain fold; and the pre-sweep loop
  throws exactly when some registered callback throws in the world that the callbacks
  before it, having returned, left.
\<close>

lemma run_post_fold:
  "post_return cbs \<Longrightarrow>
   run_post_sweep_callbacks cbs n w = Returns (fold (\<lambda>callback w. final (callback n w)) cbs w)"
proof (induction cbs arbitrary: w)
  case Nil
  then show ?case by simp
next
  case (Cons cb cbs)
  from Cons.prems have cb: "is_Returns (cb n w)" and rest: "post_return cbs"
    by (simp_all add: post_return_def)
  from cb obtain w' where w': "cb n w = Returns w'" by (cases "cb n w") simp_all
  with Cons.IH [OF rest, of w'] show ?case by simp
qed

lemma run_pre_append:
  "run_pre_sweep_callbacks (as @ bs) w =
     (case run_pre_sweep_callbacks as w of
        Throws w' \<Rightarrow> Throws w'
      | Returns w' \<Rightarrow> run_pre_sweep_callbacks bs w')"
  by (induction as arbitrary: w) (simp_all split: outcome.splits)

lemma run_pre_Throws_iff:
  "run_pre_sweep_callbacks cbs w = Throws w1 \<longleftrightarrow>
     (\<exists>as c bs w'. cbs = as @ c # bs \<and> run_pre_sweep_callbacks as w = Returns w' \<and> c w' = Throws w1)"
proof (induction cbs arbitrary: w)
  case Nil
  then show ?case by simp
next
  case (Cons cb cbs)
  show ?case
  proof (cases "cb w")
    case (Throws x)
    show ?thesis
    proof
      assume "run_pre_sweep_callbacks (cb # cbs) w = Throws w1"
      with Throws have "cb # cbs = [] @ cb # cbs \<and> run_pre_sweep_callbacks [] w = Returns w
                        \<and> cb w = Throws w1" by simp
      then show "\<exists>as c bs w'. cb # cbs = as @ c # bs
                   \<and> run_pre_sweep_callbacks as w = Returns w' \<and> c w' = Throws w1"
        by blast
    next
      assume "\<exists>as c bs w'. cb # cbs = as @ c # bs
                   \<and> run_pre_sweep_callbacks as w = Returns w' \<and> c w' = Throws w1"
      then obtain as c bs w' where d: "cb # cbs = as @ c # bs"
        and r: "run_pre_sweep_callbacks as w = Returns w'" and t: "c w' = Throws w1"
        by blast
      show "run_pre_sweep_callbacks (cb # cbs) w = Throws w1"
        by (simp only: d run_pre_append r outcome.case run_pre_sweep_callbacks.simps t)
    qed
  next
    case (Returns x)
    show ?thesis
    proof
      assume "run_pre_sweep_callbacks (cb # cbs) w = Throws w1"
      with Returns have "run_pre_sweep_callbacks cbs x = Throws w1" by simp
      then obtain as c bs w' where d: "cbs = as @ c # bs"
        and r: "run_pre_sweep_callbacks as x = Returns w'" and t: "c w' = Throws w1"
        using Cons.IH [of x] by blast
      from d r t Returns
      have "cb # cbs = (cb # as) @ c # bs \<and> run_pre_sweep_callbacks (cb # as) w = Returns w'
            \<and> c w' = Throws w1" by simp
      then show "\<exists>as c bs w'. cb # cbs = as @ c # bs
                   \<and> run_pre_sweep_callbacks as w = Returns w' \<and> c w' = Throws w1"
        by blast
    next
      assume "\<exists>as c bs w'. cb # cbs = as @ c # bs
                   \<and> run_pre_sweep_callbacks as w = Returns w' \<and> c w' = Throws w1"
      then obtain as c bs w' where d: "cb # cbs = as @ c # bs"
        and r: "run_pre_sweep_callbacks as w = Returns w'" and t: "c w' = Throws w1"
        by blast
      show "run_pre_sweep_callbacks (cb # cbs) w = Throws w1"
        by (simp only: d run_pre_append r outcome.case run_pre_sweep_callbacks.simps t)
    qed
  qed
qed

lemma revive_step:
  "reviving_post_callback n w
   = Returns (w\<lparr>heap := AList.update 1 \<lparr>id_obj = 1, zone_mask = 1, state = 1\<rparr> (heap w),
                cout := cout w @ ''[revive] '' @ show_nat n @ ''\<newline>''
                        @ ''Allocated object 1 in RED zone with state: ACTIVE\<newline>'',
                cerr := cerr w @ (if heap_count (heap w) 1 \<noteq> 0
                                  then ''Warning: Object 1 already exists. Overwriting.\<newline>''
                                  else [])\<rparr>)"
  by (simp add: reviving_post_callback_def allocate_def Let_def put_cout_def put_cerr_def
      show_u32_def show_nat_digit digit_char_def zone_name_def state_name_def)

section \<open>Properties of the liveness equation\<close>

lemma u8_pos_iff: "(0 < (w :: u8)) = (w \<noteq> 0)"
  by (simp add: word_neq_0_conv)

lemma u8_le7_and7: "(s :: u8) \<le> 7 \<Longrightarrow> s AND 7 = s"
proof -
  assume "s \<le> 7"
  then have "s < 2 ^ 3" by (simp add: word_le_nat_alt word_less_nat_alt)
  then have "s AND mask 3 = s" by (rule less_mask_eq)
  then show ?thesis by (simp add: mask_eq_exp_minus_1)
qed

lemma u8_le7_and_low3: "(s :: u8) \<le> 7 \<Longrightarrow> s AND (p AND 7) = s AND p"
proof -
  assume le: "s \<le> 7"
  have "s AND (p AND 7) = (s AND 7) AND p"
    by (simp add: ac_simps)
  then show ?thesis using u8_le7_and7 [OF le] by simp
qed

text \<open>
  Claim C1. For every descriptor with state \<open>s\<close>, zone mask \<open>z\<close> and every pending mask
  \<open>p\<close>: \<open>evaluate_liveness\<close> is false when \<open>s\<close> is EXPIRED (7); otherwise true when \<open>s\<close> is
  PERSIST (4); otherwise true exactly when \<open>(s AND z) OR (s AND p)\<close> is nonzero or \<open>s\<close>
  is ACTIVE (1). The id plays no part, and the statement holds for every byte \<open>s\<close>, the
  3-bit ones included.
\<close>

theorem evaluate_liveness_equation:
  "evaluate_liveness \<lparr>id_obj = i, zone_mask = z, state = s\<rparr> p =
     (if s = 7 then False
      else if s = 4 then True
      else ((s AND z) OR (s AND p)) \<noteq> 0 \<or> s = 1)"
  by (simp add: evaluate_liveness_def Let_def u8_pos_iff)

theorem evaluate_liveness_equation_witness:
  "evaluate_liveness \<lparr>id_obj = 102, zone_mask = 1, state = 6\<rparr> 0 = False
   \<and> evaluate_liveness \<lparr>id_obj = 105, zone_mask = 1, state = 3\<rparr> 0 = True
   \<and> evaluate_liveness \<lparr>id_obj = 401, zone_mask = 4, state = 7\<rparr> 7 = False
   \<and> evaluate_liveness \<lparr>id_obj = 103, zone_mask = 4, state = 4\<rparr> 0 = True
   \<and> evaluate_liveness \<lparr>id_obj = 101, zone_mask = 2, state = 1\<rparr> 0 = True"
  using evaluate_liveness_equation [of 102 1 6 0]
    evaluate_liveness_equation [of 105 1 3 0]
    evaluate_liveness_equation [of 401 4 7 7]
    evaluate_liveness_equation [of 103 4 4 0]
    evaluate_liveness_equation [of 101 2 1 0]
  by simp

text \<open>
  Claim C7. For a descriptor whose state lies in \<open>[0,7]\<close> and every 8-bit pending mask
  \<open>p\<close>, the verdict under \<open>p\<close> is the verdict under \<open>p AND 0b111\<close>: the bits of the mask
  above the low three never change it.
\<close>

theorem evaluate_liveness_low3:
  "state obj \<le> 7 \<Longrightarrow> evaluate_liveness obj p = evaluate_liveness obj (p AND 7)"
  by (simp add: evaluate_liveness_def Let_def u8_le7_and_low3)

theorem evaluate_liveness_low3_witness:
  "state \<lparr>id_obj = 9, zone_mask = 2, state = 5\<rparr> \<le> 7
   \<and> evaluate_liveness \<lparr>id_obj = 9, zone_mask = 2, state = 5\<rparr> 248
       = evaluate_liveness \<lparr>id_obj = 9, zone_mask = 2, state = 5\<rparr> (248 AND 7)
   \<and> evaluate_liveness \<lparr>id_obj = 9, zone_mask = 2, state = 5\<rparr> 248 = False"
proof -
  have h: "state \<lparr>id_obj = 9, zone_mask = 2, state = 5\<rparr> \<le> 7" by simp
  have v: "evaluate_liveness \<lparr>id_obj = 9, zone_mask = 2, state = 5\<rparr> 248 = False"
    by (simp add: evaluate_liveness_def Let_def)
  show ?thesis
    using h v evaluate_liveness_low3 [OF h, of 248] by simp
qed

text \<open>
  Claim C10. The verdict does not depend on the id: two descriptors that agree on state
  and zone mask get the same verdict under every pending mask.
\<close>

theorem evaluate_liveness_id_independent:
  "state a = state b \<Longrightarrow> zone_mask a = zone_mask b \<Longrightarrow>
   evaluate_liveness a p = evaluate_liveness b p"
  by (simp add: evaluate_liveness_def)

theorem evaluate_liveness_id_independent_witness:
  "state \<lparr>id_obj = 1, zone_mask = 2, state = 6\<rparr> = state \<lparr>id_obj = 2, zone_mask = 2, state = 6\<rparr>
   \<and> zone_mask \<lparr>id_obj = 1, zone_mask = 2, state = 6\<rparr> = zone_mask \<lparr>id_obj = 2, zone_mask = 2, state = 6\<rparr>
   \<and> id_obj \<lparr>id_obj = 1, zone_mask = 2, state = 6\<rparr> \<noteq> id_obj \<lparr>id_obj = 2, zone_mask = 2, state = 6\<rparr>
   \<and> evaluate_liveness \<lparr>id_obj = 1, zone_mask = 2, state = 6\<rparr> 3
       = evaluate_liveness \<lparr>id_obj = 2, zone_mask = 2, state = 6\<rparr> 3"
proof -
  have s: "state \<lparr>id_obj = 1, zone_mask = 2, state = 6\<rparr> = state \<lparr>id_obj = 2, zone_mask = 2, state = 6\<rparr>"
    by simp
  have z: "zone_mask \<lparr>id_obj = 1, zone_mask = 2, state = 6\<rparr> = zone_mask \<lparr>id_obj = 2, zone_mask = 2, state = 6\<rparr>"
    by simp
  show ?thesis
    using s z evaluate_liveness_id_independent [OF s z, of 3] by simp
qed

section \<open>Properties of the sweep\<close>

text \<open>
  Claim C2. \<open>sweep(p)\<close> removes exactly the descriptors that are not alive under \<open>p\<close> when
  the candidates are selected, and no others: in whatever world \<open>w1\<close> the selection starts,
  the heap that selection and reclamation leave is the heap of \<open>w1\<close> filtered by
  \<open>evaluate_liveness\<close>. With callbacks that do not change the heap, the heap in which
  \<open>sweep(p)\<close> returns is therefore the heap at the call filtered by \<open>evaluate_liveness\<close>, and
  every descriptor in it is alive under \<open>p\<close>; and \<open>sweep(p)\<close> does return when no callback
  throws.
\<close>

theorem sweep_removes_exactly_not_alive:
  "(\<forall>w1. heap_ok (heap w1) \<longrightarrow>
      heap (report_and_reclaim (collect_objects_to_reclaim p (heap w1)) w1)
        = filter (\<lambda>e. evaluate_liveness (snd e) p) (heap w1))
   \<and> (heap_ok (heap (world m)) \<and> hooks_observe m \<longrightarrow>
        (\<forall>w'. sweep p m = Returns w' \<longrightarrow>
           heap w' = filter (\<lambda>e. evaluate_liveness (snd e) p) (heap (world m))
           \<and> (\<forall>e \<in> set (heap w'). evaluate_liveness (snd e) p))
        \<and> (hooks_return m \<longrightarrow> is_Returns (sweep p m)))"
proof (intro conjI allI impI)
  fix w1 :: world assume "heap_ok (heap w1)"
  then show "heap (report_and_reclaim (collect_objects_to_reclaim p (heap w1)) w1)
        = filter (\<lambda>e. evaluate_liveness (snd e) p) (heap w1)"
    by (rule heap_after_reclaim)
next
  fix w' assume a: "heap_ok (heap (world m)) \<and> hooks_observe m" and r: "sweep p m = Returns w'"
  obtain w1 where pre: "run_pre_sweep_callbacks (pre_sweep_callbacks m)
             (put_cout ''\<newline>--- Initiating VGC Collection Cycle ---\<newline>'' (world m)) = Returns w1"
    using r by (rule sweep_Returns_pre)
  from sweep_heap_after_pre [OF pre, of p] a r
  show h: "heap w' = filter (\<lambda>e. evaluate_liveness (snd e) p) (heap (world m))"
    by simp
  show "\<forall>e \<in> set (heap w'). evaluate_liveness (snd e) p"
    by (simp add: h)
next
  assume "hooks_return m"
  then show "is_Returns (sweep p m)" by (rule sweep_returns)
qed

theorem sweep_removes_exactly_not_alive_witness:
  "heap_ok (heap (world main_phase1)) \<and> hooks_observe main_phase1 \<and> hooks_return main_phase1
   \<and> is_Returns (sweep 0 main_phase1)
   \<and> heap (final (sweep 0 main_phase1)) =
       [(101, \<lparr>id_obj = 101, zone_mask = 2, state = 1\<rparr>),
        (103, \<lparr>id_obj = 103, zone_mask = 4, state = 4\<rparr>),
        (105, \<lparr>id_obj = 105, zone_mask = 1, state = 1\<rparr>)]"
proof -
  note t = sweep_removes_exactly_not_alive [of 0 main_phase1]
  have r: "is_Returns (sweep 0 main_phase1)"
    using t main_phase1_ok main_phase1_observe main_phase1_return by blast
  then obtain w' where w': "sweep 0 main_phase1 = Returns w'"
    by (cases "sweep 0 main_phase1") simp_all
  with t main_phase1_ok main_phase1_observe
  have "heap w' = filter (\<lambda>e. evaluate_liveness (snd e) 0) (heap (world main_phase1))"
    by blast
  with w' r show ?thesis
    by (simp add: main_phase1_ok main_phase1_observe main_phase1_return filter_alive_main_phase1)
qed

text \<open>
  Claim C3, as the code has it. The claim says that every registered post-sweep callback
  is invoked, with the heap size before the sweep minus the heap size after it. \<open>sweep\<close>
  calls the callbacks without a handler, and it counts the candidate list, not the heap.
  Below, first: a post-sweep callback that throws ends the sweep, and the callback
  registered after it never writes its line. Second: a post-sweep callback that allocates
  descriptor 1 again is passed 1, while the heap holds one descriptor before the sweep and
  one after it.
\<close>

theorem sweep_post_callbacks_counterexample:
  "sweep 0 \<lparr>world = \<lparr>heap = [(1, \<lparr>id_obj = 1, zone_mask = 1, state = 7\<rparr>)], cout = [], cerr = []\<rparr>,
            pre_sweep_callbacks = [],
            post_sweep_callbacks = [failing_post_callback, echo_post_callback]\<rparr>
   = Throws \<lparr>heap = [],
             cout = ''\<newline>--- Initiating VGC Collection Cycle ---\<newline>''
                    @ ''Reclaiming 1 object(s):\<newline>''
                    @ ''  '' @ bullet @ '' Object 1 (Zone: RED, State: EXPIRED)\<newline>'',
             cerr = []\<rparr>
   \<and> sweep 0 \<lparr>world = \<lparr>heap = [(1, \<lparr>id_obj = 1, zone_mask = 1, state = 7\<rparr>)], cout = [], cerr = []\<rparr>,
              pre_sweep_callbacks = [],
              post_sweep_callbacks = [reviving_post_callback]\<rparr>
   = Returns \<lparr>heap = [(1, \<lparr>id_obj = 1, zone_mask = 1, state = 1\<rparr>)],
              cout = ''\<newline>--- Initiating VGC Collection Cycle ---\<newline>''
                     @ ''Reclaiming 1 object(s):\<newline>''
                     @ ''  '' @ bullet @ '' Object 1 (Zone: RED, State: EXPIRED)\<newline>''
                     @ ''[revive] 1\<newline>''
                     @ ''Allocated object 1 in RED zone with state: ACTIVE\<newline>''
                     @ ''--- Collection Cycle Complete ---\<newline>'',
              cerr = []\<rparr>"
  by (simp add: sweep_def Let_def put_cout_def evaluate_liveness_def
      report_and_reclaim_def heap_subscript_def failing_post_callback_def revive_step
      heap_count_def show_u32_def show_nat_digit digit_char_def zone_name_def state_name_def)

text \<open>
  Claim C3, amended. Take a sweep on a well-formed heap, with callbacks that do not change
  the heap, whose pre-sweep callbacks have returned. Its post-sweep loop starts in a world
  \<open>w2\<close> whose heap has lost every candidate: it is the heap at the call filtered by
  \<open>evaluate_liveness\<close>, and already the heap the sweep ends with. From \<open>w2\<close> the registered
  post-sweep callbacks run in the order of the vector, which is the order of registration
  (registering appends), each in the world the one before it left, and each is passed
  \<open>object_count\<close> before the sweep minus \<open>object_count\<close> after it. A callback that throws
  ends the sweep and those after it are not invoked; when no post-sweep callback throws,
  every one of them is invoked and \<open>sweep\<close> returns.
\<close>

theorem sweep_post_callbacks_reclaimed_count:
  assumes ok: "heap_ok (heap (world m))"
      and obs: "hooks_observe m"
      and pre: "is_Returns (run_pre_sweep_callbacks (pre_sweep_callbacks m)
                  (put_cout ''\<newline>--- Initiating VGC Collection Cycle ---\<newline>'' (world m)))"
  shows "\<exists>w2. heap w2 = filter (\<lambda>e. evaluate_liveness (snd e) p) (heap (world m))
            \<and> heap w2 = heap (world (after_sweep p m))
            \<and> sweep p m =
                (case foldl (\<lambda>r callback.
                               case r of
                                 Returns w \<Rightarrow> callback (object_count m - object_count (after_sweep p m)) w
                               | Throws w \<Rightarrow> Throws w)
                        (Returns w2) (post_sweep_callbacks m) of
                   Throws w3 \<Rightarrow> Throws w3
                 | Returns w3 \<Rightarrow> Returns (put_cout ''--- Collection Cycle Complete ---\<newline>'' w3))
            \<and> (post_return (post_sweep_callbacks m) \<longrightarrow>
                 sweep p m =
                   Returns (put_cout ''--- Collection Cycle Complete ---\<newline>''
                     (fold (\<lambda>callback w. final (callback (object_count m - object_count (after_sweep p m)) w))
                        (post_sweep_callbacks m) w2)))
            \<and> post_sweep_callbacks (register_post_sweep_callback c m)
                = post_sweep_callbacks m @ [c]"
proof -
  obtain w1 where w1: "run_pre_sweep_callbacks (pre_sweep_callbacks m)
             (put_cout ''\<newline>--- Initiating VGC Collection Cycle ---\<newline>'' (world m)) = Returns w1"
    using pre by (metis outcome.collapse(1))
  have h1: "heap w1 = heap (world m)"
    using run_pre_heap [of "pre_sweep_callbacks m"
        "put_cout ''\<newline>--- Initiating VGC Collection Cycle ---\<newline>'' (world m)"] obs w1
    by (simp add: hooks_observe_def)
  let ?w2 = "report_and_reclaim (collect_objects_to_reclaim p (heap w1)) w1"
  let ?n = "object_count m - object_count (after_sweep p m)"
  have h2: "heap ?w2 = filter (\<lambda>e. evaluate_liveness (snd e) p) (heap (world m))"
    using heap_after_reclaim [of w1 p] ok h1 by simp
  have hf: "heap (world (after_sweep p m))
            = filter (\<lambda>e. evaluate_liveness (snd e) p) (heap (world m))"
    using sweep_heap_after_pre [OF w1 ok obs, of p] by (simp add: after_sweep_def)
  have n: "length (collect_objects_to_reclaim p (heap w1)) = ?n"
    by (simp add: length_collect h1 object_count_def hf)
  have sw: "sweep p m =
          (case run_post_sweep_callbacks (post_sweep_callbacks m) ?n ?w2 of
             Throws w3 \<Rightarrow> Throws w3
           | Returns w3 \<Rightarrow> Returns (put_cout ''--- Collection Cycle Complete ---\<newline>'' w3))"
    using sweep_after_pre [OF w1, of p] n by simp
  then have a: "sweep p m =
                (case foldl (\<lambda>r callback.
                               case r of
                                 Returns w \<Rightarrow> callback ?n w
                               | Throws w \<Rightarrow> Throws w)
                        (Returns ?w2) (post_sweep_callbacks m) of
                   Throws w3 \<Rightarrow> Throws w3
                 | Returns w3 \<Rightarrow> Returns (put_cout ''--- Collection Cycle Complete ---\<newline>'' w3))"
    by (simp only: run_post_foldl)
  have b: "post_return (post_sweep_callbacks m) \<longrightarrow>
                 sweep p m =
                   Returns (put_cout ''--- Collection Cycle Complete ---\<newline>''
                     (fold (\<lambda>callback w. final (callback ?n w)) (post_sweep_callbacks m) ?w2))"
  proof
    assume "post_return (post_sweep_callbacks m)"
    then have "run_post_sweep_callbacks (post_sweep_callbacks m) ?n ?w2
               = Returns (fold (\<lambda>callback w. final (callback ?n w)) (post_sweep_callbacks m) ?w2)"
      by (rule run_post_fold)
    with sw show "sweep p m =
                   Returns (put_cout ''--- Collection Cycle Complete ---\<newline>''
                     (fold (\<lambda>callback w. final (callback ?n w)) (post_sweep_callbacks m) ?w2))"
      by simp
  qed
  have c: "post_sweep_callbacks (register_post_sweep_callback c m)
                = post_sweep_callbacks m @ [c]"
    by (rule register_post_fields)
  have hf': "heap ?w2 = heap (world (after_sweep p m))"
    by (simp only: h2 hf)
  show ?thesis
    by (rule exI [of _ ?w2]) (intro conjI h2 hf' a b c)
qed

theorem sweep_post_callbacks_reclaimed_count_witness:
  "heap_ok (heap (world (register_post_sweep_callback echo_post_callback main_phase1)))
   \<and> hooks_observe (register_post_sweep_callback echo_post_callback main_phase1)
   \<and> is_Returns (run_pre_sweep_callbacks
        (pre_sweep_callbacks (register_post_sweep_callback echo_post_callback main_phase1))
        (put_cout ''\<newline>--- Initiating VGC Collection Cycle ---\<newline>''
           (world (register_post_sweep_callback echo_post_callback main_phase1))))
   \<and> (\<exists>w2. heap w2 = [(101, \<lparr>id_obj = 101, zone_mask = 2, state = 1\<rparr>),
                       (103, \<lparr>id_obj = 103, zone_mask = 4, state = 4\<rparr>),
                       (105, \<lparr>id_obj = 105, zone_mask = 1, state = 1\<rparr>)]
          \<and> sweep 0 (register_post_sweep_callback echo_post_callback main_phase1)
            = Returns (put_cout ''--- Collection Cycle Complete ---\<newline>''
                (put_cout ''[echo] 2\<newline>''
                  (put_cout ''[Post-sweep] Resuming application threads. 2 objects reclaimed.\<newline>''
                     w2))))"
proof -
  let ?m = "register_post_sweep_callback echo_post_callback main_phase1"
  have ok: "heap_ok (heap (world ?m))"
    by (simp add: register_post_fields main_phase1_ok)
  have obs: "hooks_observe ?m"
    using main_phase1_observe
    by (simp add: hooks_observe_def post_observe_def register_post_fields echo_post_callback_def)
  have "pre_return (pre_sweep_callbacks ?m)"
    using main_phase1_return by (simp add: hooks_return_def register_post_fields)
  then have pre: "is_Returns (run_pre_sweep_callbacks (pre_sweep_callbacks ?m)
        (put_cout ''\<newline>--- Initiating VGC Collection Cycle ---\<newline>'' (world ?m)))"
    by (rule run_pre_returns)
  have n5: "object_count ?m = 5"
    by (simp add: object_count_def register_post_fields heap_main_phase1)
  obtain w2 where
    h2: "heap w2 = filter (\<lambda>e. evaluate_liveness (snd e) 0) (heap (world ?m))"
    and hf: "heap w2 = heap (world (after_sweep 0 ?m))"
    and sw: "sweep 0 ?m =
                (case foldl (\<lambda>r callback.
                               case r of
                                 Returns w \<Rightarrow> callback (object_count ?m - object_count (after_sweep 0 ?m)) w
                               | Throws w \<Rightarrow> Throws w)
                        (Returns w2) (post_sweep_callbacks ?m) of
                   Throws w3 \<Rightarrow> Throws w3
                 | Returns w3 \<Rightarrow> Returns (put_cout ''--- Collection Cycle Complete ---\<newline>'' w3))"
    using sweep_post_callbacks_reclaimed_count [OF ok obs pre, of 0] by blast
  have h2': "heap w2 = [(101, \<lparr>id_obj = 101, zone_mask = 2, state = 1\<rparr>),
                       (103, \<lparr>id_obj = 103, zone_mask = 4, state = 4\<rparr>),
                       (105, \<lparr>id_obj = 105, zone_mask = 1, state = 1\<rparr>)]"
    using h2 by (simp add: register_post_fields filter_alive_main_phase1)
  have "length (heap (world (after_sweep 0 ?m))) = length (heap w2)"
    by (simp only: hf)
  then have n3: "object_count (after_sweep 0 ?m) = 3"
    unfolding object_count_def h2' by simp
  have "sweep 0 ?m = Returns (put_cout ''--- Collection Cycle Complete ---\<newline>''
                (put_cout ''[echo] 2\<newline>''
                  (put_cout ''[Post-sweep] Resuming application threads. 2 objects reclaimed.\<newline>''
                     w2)))"
    using sw
    by (simp add: n5 n3 register_post_fields callbacks_main_phase1 main_post_callback_def
        echo_post_callback_def show_nat_digit digit_char_def)
  with ok obs pre h2' show ?thesis by blast
qed

text \<open>
  Claim C4, as the code has it. The claim says that a failing pre-sweep callback does not
  keep the sweep from selecting and reclaiming. \<open>sweep\<close> calls the callbacks without a
  handler, so the exception of a pre-sweep callback leaves \<open>sweep\<close> at once: below, a heap
  with one EXPIRED descriptor and one throwing pre-sweep callback still holds that
  descriptor when \<open>sweep(0)\<close> has thrown.
\<close>

theorem sweep_pre_callback_throws_counterexample:
  "sweep 0 \<lparr>world = \<lparr>heap = [(1, \<lparr>id_obj = 1, zone_mask = 1, state = 7\<rparr>)], cout = [], cerr = []\<rparr>,
            pre_sweep_callbacks = [Throws], post_sweep_callbacks = []\<rparr>
   = Throws \<lparr>heap = [(1, \<lparr>id_obj = 1, zone_mask = 1, state = 7\<rparr>)],
             cout = ''\<newline>--- Initiating VGC Collection Cycle ---\<newline>'', cerr = []\<rparr>
   \<and> \<not> evaluate_liveness \<lparr>id_obj = 1, zone_mask = 1, state = 7\<rparr> 0"
  by (simp add: sweep_def put_cout_def evaluate_liveness_def)

text \<open>
  Claim C4, amended. If a registered pre-sweep callback throws during \<open>sweep(p)\<close>, that is,
  if the pre-sweep loop ends by an exception (see \<open>run_pre_Throws_iff\<close>), then \<open>sweep(p)\<close>
  ends with that exception in the world the throwing callback left: nothing is selected,
  nothing is reclaimed and no post-sweep callback runs. With pre-sweep callbacks that do
  not change the heap, the heap is then the heap at the call.
\<close>

theorem sweep_pre_callback_throws:
  assumes thr: "is_Throws (run_pre_sweep_callbacks (pre_sweep_callbacks m)
                  (put_cout ''\<newline>--- Initiating VGC Collection Cycle ---\<newline>'' (world m)))"
  shows "sweep p m = run_pre_sweep_callbacks (pre_sweep_callbacks m)
                       (put_cout ''\<newline>--- Initiating VGC Collection Cycle ---\<newline>'' (world m))
         \<and> is_Throws (sweep p m)
         \<and> (pre_observe (pre_sweep_callbacks m) \<longrightarrow> heap (final (sweep p m)) = heap (world m))"
proof -
  let ?w0 = "put_cout ''\<newline>--- Initiating VGC Collection Cycle ---\<newline>'' (world m)"
  obtain w1 where w1: "run_pre_sweep_callbacks (pre_sweep_callbacks m) ?w0 = Throws w1"
    using thr by (metis outcome.collapse(2))
  have s: "sweep p m = Throws w1"
    by (rule sweep_pre_throws [OF w1])
  have "pre_observe (pre_sweep_callbacks m) \<longrightarrow> heap w1 = heap (world m)"
  proof
    assume "pre_observe (pre_sweep_callbacks m)"
    from run_pre_heap [OF this, of ?w0] w1 show "heap w1 = heap (world m)" by simp
  qed
  with s w1 show ?thesis by simp
qed

theorem sweep_pre_callback_throws_witness:
  "is_Throws (run_pre_sweep_callbacks
      (pre_sweep_callbacks (register_pre_sweep_callback
         (\<lambda>w. if heap w = [] then Returns w else Throws w) main_phase1))
      (put_cout ''\<newline>--- Initiating VGC Collection Cycle ---\<newline>''
         (world (register_pre_sweep_callback
            (\<lambda>w. if heap w = [] then Returns w else Throws w) main_phase1))))
   \<and> pre_observe (pre_sweep_callbacks (register_pre_sweep_callback
         (\<lambda>w. if heap w = [] then Returns w else Throws w) main_phase1))
   \<and> is_Throws (sweep 0 (register_pre_sweep_callback
         (\<lambda>w. if heap w = [] then Returns w else Throws w) main_phase1))
   \<and> heap (final (sweep 0 (register_pre_sweep_callback
         (\<lambda>w. if heap w = [] then Returns w else Throws w) main_phase1))) =
     [(101, \<lparr>id_obj = 101, zone_mask = 2, state = 1\<rparr>),
      (102, \<lparr>id_obj = 102, zone_mask = 1, state = 6\<rparr>),
      (103, \<lparr>id_obj = 103, zone_mask = 4, state = 4\<rparr>),
      (104, \<lparr>id_obj = 104, zone_mask = 2, state = 0\<rparr>),
      (105, \<lparr>id_obj = 105, zone_mask = 1, state = 1\<rparr>)]
   \<and> \<not> evaluate_liveness \<lparr>id_obj = 102, zone_mask = 1, state = 6\<rparr> 0"
proof -
  let ?m = "register_pre_sweep_callback
         (\<lambda>w. if heap w = [] then Returns w else Throws w) main_phase1"
  have thr: "is_Throws (run_pre_sweep_callbacks (pre_sweep_callbacks ?m)
      (put_cout ''\<newline>--- Initiating VGC Collection Cycle ---\<newline>'' (world ?m)))"
    by (simp add: register_pre_fields callbacks_main_phase1 main_pre_callback_def
        heap_main_phase1)
  have obs: "pre_observe (pre_sweep_callbacks ?m)"
    by (simp add: pre_observe_def register_pre_fields callbacks_main_phase1 main_pre_callback_def)
  have dead: "\<not> evaluate_liveness \<lparr>id_obj = 102, zone_mask = 1, state = 6\<rparr> 0"
    by (simp add: evaluate_liveness_def)
  note t = sweep_pre_callback_throws [OF thr, of 0]
  from t have a: "is_Throws (sweep 0 ?m)" by blast
  from t obs have b: "heap (final (sweep 0 ?m)) = heap (world ?m)" by blast
  have c: "heap (world ?m) =
     [(101, \<lparr>id_obj = 101, zone_mask = 2, state = 1\<rparr>),
      (102, \<lparr>id_obj = 102, zone_mask = 1, state = 6\<rparr>),
      (103, \<lparr>id_obj = 103, zone_mask = 4, state = 4\<rparr>),
      (104, \<lparr>id_obj = 104, zone_mask = 2, state = 0\<rparr>),
      (105, \<lparr>id_obj = 105, zone_mask = 1, state = 1\<rparr>)]"
    by (simp add: register_pre_fields heap_main_phase1)
  show ?thesis
    by (intro conjI thr obs a dead b [unfolded c])
qed

text \<open>
  Claim C8. With a well-formed heap and callbacks that do not change the heap, after a
  \<open>sweep(p)\<close> that returned no descriptor of the heap is a candidate under \<open>p\<close>: a second
  \<open>sweep(p)\<close> selects nothing once its pre-sweep callbacks have returned, and leaves the
  heap (and so \<open>object_count\<close>) as the first sweep left it; it returns when no callback
  throws.
\<close>

theorem sweep_twice:
  assumes ok: "heap_ok (heap (world m))"
      and obs: "hooks_observe m"
      and first: "is_Returns (sweep p m)"
  shows "collect_objects_to_reclaim p (heap (world (after_sweep p m))) = []
         \<and> (\<forall>w. run_pre_sweep_callbacks (pre_sweep_callbacks (after_sweep p m))
                  (put_cout ''\<newline>--- Initiating VGC Collection Cycle ---\<newline>''
                     (world (after_sweep p m))) = Returns w
                \<longrightarrow> collect_objects_to_reclaim p (heap w) = [])
         \<and> heap (world (after_sweep p (after_sweep p m))) = heap (world (after_sweep p m))
         \<and> object_count (after_sweep p (after_sweep p m)) = object_count (after_sweep p m)
         \<and> (hooks_return m \<longrightarrow> is_Returns (sweep p (after_sweep p m)))"
proof -
  obtain w1 where w1: "sweep p m = Returns w1"
    using first by (cases "sweep p m") simp_all
  obtain v where v: "run_pre_sweep_callbacks (pre_sweep_callbacks m)
             (put_cout ''\<newline>--- Initiating VGC Collection Cycle ---\<newline>'' (world m)) = Returns v"
    using w1 by (rule sweep_Returns_pre)
  let ?m2 = "after_sweep p m"
  let ?w0 = "put_cout ''\<newline>--- Initiating VGC Collection Cycle ---\<newline>'' (world ?m2)"
  have h1: "heap (world ?m2) = filter (\<lambda>e. evaluate_liveness (snd e) p) (heap (world m))"
    using sweep_heap_after_pre [OF v ok obs, of p] by (simp add: after_sweep_def)
  have c: "collect_objects_to_reclaim p (heap (world ?m2)) = []"
    by (simp add: h1 collect_filter_alive)
  have cbs: "pre_sweep_callbacks ?m2 = pre_sweep_callbacks m"
    "post_sweep_callbacks ?m2 = post_sweep_callbacks m"
    by (simp_all add: after_sweep_def)
  have obs2: "hooks_observe ?m2"
    using obs by (simp add: hooks_observe_def cbs)
  then have preobs: "pre_observe (pre_sweep_callbacks ?m2)"
    by (simp add: hooks_observe_def)
  have ok2: "heap_ok (heap (world ?m2))"
    using ok h1 by (simp add: heap_ok_filter)
  have c2: "\<forall>w. run_pre_sweep_callbacks (pre_sweep_callbacks ?m2) ?w0 = Returns w
                \<longrightarrow> collect_objects_to_reclaim p (heap w) = []"
  proof (intro allI impI)
    fix w assume "run_pre_sweep_callbacks (pre_sweep_callbacks ?m2) ?w0 = Returns w"
    with run_pre_heap [OF preobs, of ?w0] have "heap w = heap (world ?m2)" by simp
    with c show "collect_objects_to_reclaim p (heap w) = []" by simp
  qed
  have h2: "heap (final (sweep p ?m2)) = heap (world ?m2)"
  proof (cases "run_pre_sweep_callbacks (pre_sweep_callbacks ?m2) ?w0")
    case (Returns w)
    have "heap (final (sweep p ?m2))
          = filter (\<lambda>e. evaluate_liveness (snd e) p) (heap (world ?m2))"
      by (rule sweep_heap_after_pre [OF Returns ok2 obs2])
    then show ?thesis by (simp add: h1)
  next
    case (Throws w)
    have "heap w = heap (world ?m2)"
      using run_pre_heap [OF preobs, of ?w0] Throws by simp
    then show ?thesis by (simp add: sweep_pre_throws [OF Throws])
  qed
  then have h3: "heap (world (after_sweep p ?m2)) = heap (world ?m2)"
    by (simp add: after_sweep_def)
  then have n: "object_count (after_sweep p ?m2) = object_count ?m2"
    by (simp add: object_count_def)
  have r: "hooks_return m \<longrightarrow> is_Returns (sweep p ?m2)"
  proof
    assume "hooks_return m"
    then have "hooks_return ?m2" by (simp add: hooks_return_def cbs)
    then show "is_Returns (sweep p ?m2)" by (rule sweep_returns)
  qed
  from c c2 h3 n r show ?thesis by blast
qed

theorem sweep_twice_witness:
  "heap_ok (heap (world main_phase1)) \<and> hooks_observe main_phase1
   \<and> is_Returns (sweep 0 main_phase1)
   \<and> heap (world (after_sweep 0 (after_sweep 0 main_phase1))) = heap (world (after_sweep 0 main_phase1))
   \<and> object_count (after_sweep 0 (after_sweep 0 main_phase1)) = object_count (after_sweep 0 main_phase1)
   \<and> is_Returns (sweep 0 (after_sweep 0 main_phase1))"
proof -
  have r: "is_Returns (sweep 0 main_phase1)"
    by (rule sweep_returns [OF main_phase1_return])
  show ?thesis
    using r main_phase1_return sweep_twice [OF main_phase1_ok main_phase1_observe r]
    by (simp add: main_phase1_ok main_phase1_observe)
qed

section \<open>Properties of allocation and state transitions\<close>

text \<open>
  Claim C5. When the heap already holds a descriptor under \<open>id\<close>, \<open>allocate(id, zone,
  state)\<close> writes the line \<open>Warning: Object <id> already exists. Overwriting.\<close> to
  \<open>std::cerr\<close>, goes on to store the new descriptor, and leaves exactly one entry under
  \<open>id\<close>, carrying the zone and the state of this call. The heap is well-formed (no key
  twice) before and after.
\<close>

theorem allocate_existing_id:
  assumes "heap_ok (heap (world m))"
      and "map_of (heap (world m)) k = Some old"
  shows "cerr (world (allocate k zone st m))
           = cerr (world m) @ ''Warning: Object '' @ show_u32 k @ '' already exists. Overwriting.\<newline>''
         \<and> filter (\<lambda>e. fst e = k) (heap (world (allocate k zone st m)))
           = [(k, \<lparr>id_obj = k, zone_mask = zone_u8 zone, state = state_u8 st\<rparr>)]
         \<and> map_of (heap (world (allocate k zone st m))) k
           = Some \<lparr>id_obj = k, zone_mask = zone_u8 zone, state = state_u8 st\<rparr>
         \<and> heap_ok (heap (world (allocate k zone st m)))"
  using assms
  by (simp add: cerr_allocate heap_allocate map_of_Some_count filter_key_update
      update_conv' heap_ok_update)

theorem allocate_existing_id_witness:
  "heap_ok (heap (world (allocate 7 RED MARKED new_manager)))
   \<and> map_of (heap (world (allocate 7 RED MARKED new_manager))) 7
       = Some \<lparr>id_obj = 7, zone_mask = 1, state = 6\<rparr>
   \<and> cerr (world (allocate 7 BLUE PERSIST (allocate 7 RED MARKED new_manager)))
       = ''Warning: Object 7 already exists. Overwriting.\<newline>''
   \<and> filter (\<lambda>e. fst e = 7) (heap (world (allocate 7 BLUE PERSIST (allocate 7 RED MARKED new_manager))))
       = [(7, \<lparr>id_obj = 7, zone_mask = 4, state = 4\<rparr>)]"
proof -
  have ok: "heap_ok (heap (world (allocate 7 RED MARKED new_manager)))"
    by (simp add: world_new_allocate_7 heap_ok_def)
  have old: "map_of (heap (world (allocate 7 RED MARKED new_manager))) 7
       = Some \<lparr>id_obj = 7, zone_mask = 1, state = 6\<rparr>"
    by (simp add: world_new_allocate_7)
  show ?thesis
    using ok old allocate_existing_id [OF ok old, of BLUE PERSIST]
    by (simp add: world_new_allocate_7 show_u32_def show_nat_digit digit_char_def)
qed

text \<open>
  Claim C9. \<open>allocate(id, zone, state)\<close> leaves every entry under another id as it was:
  the entries with a different key are the same set before and after, and so is every
  lookup of a different key. \<open>object_count()\<close> grows by one when \<open>id\<close> was absent and stays
  the same when it was present.
\<close>

theorem allocate_frame:
  "{e \<in> set (heap (world (allocate k zone st m))). fst e \<noteq> k}
     = {e \<in> set (heap (world m)). fst e \<noteq> k}
   \<and> (\<forall>k'. k' \<noteq> k \<longrightarrow>
          map_of (heap (world (allocate k zone st m))) k' = map_of (heap (world m)) k')
   \<and> object_count (allocate k zone st m)
     = (if map_of (heap (world m)) k = None then object_count m + 1 else object_count m)"
proof -
  have "set (filter (\<lambda>e. fst e \<noteq> k) (heap (world (allocate k zone st m))))
        = set (filter (\<lambda>e. fst e \<noteq> k) (heap (world m)))"
    by (simp only: heap_allocate filter_other_update)
  then have "{e \<in> set (heap (world (allocate k zone st m))). fst e \<noteq> k}
             = {e \<in> set (heap (world m)). fst e \<noteq> k}"
    by simp
  then show ?thesis
    by (simp add: heap_allocate update_conv' object_count_def length_heap_update)
qed

theorem allocate_frame_witness:
  "object_count (allocate 8 GREEN ACTIVE (allocate 7 RED MARKED new_manager)) = 2
   \<and> object_count (allocate 7 GREEN ACTIVE (allocate 7 RED MARKED new_manager)) = 1
   \<and> map_of (heap (world (allocate 8 GREEN ACTIVE (allocate 7 RED MARKED new_manager)))) 7
       = Some \<lparr>id_obj = 7, zone_mask = 1, state = 6\<rparr>"
  using allocate_frame [of 8 GREEN ACTIVE "allocate 7 RED MARKED new_manager"]
    allocate_frame [of 7 GREEN ACTIVE "allocate 7 RED MARKED new_manager"]
  by (simp add: world_new_allocate_7 object_count_def)

text \<open>
  Claim C6. \<open>transition_state(id, new_state)\<close> on an id that is not in the heap writes the
  line \<open>Error: Cannot transition state. Object <id> not found.\<close> to \<open>std::cerr\<close> and
  changes nothing else: the heap, \<open>std::cout\<close> and the callbacks are as before. The
  function has no failing path (the model is a total function to a manager). When the id
  is present, its descriptor has state \<open>new_state\<close> afterwards and nothing is written to
  \<open>std::cerr\<close>.
\<close>

theorem transition_state_cases:
  "(map_of (heap (world m)) k = None \<longrightarrow>
      heap (world (transition_state k new_state m)) = heap (world m)
      \<and> cout (world (transition_state k new_state m)) = cout (world m)
      \<and> cerr (world (transition_state k new_state m))
        = cerr (world m) @ ''Error: Cannot transition state. Object '' @ show_u32 k @ '' not found.\<newline>''
      \<and> pre_sweep_callbacks (transition_state k new_state m) = pre_sweep_callbacks m
      \<and> post_sweep_callbacks (transition_state k new_state m) = post_sweep_callbacks m)
   \<and> (\<forall>obj. map_of (heap (world m)) k = Some obj \<longrightarrow>
        map_of (heap (world (transition_state k new_state m))) k
          = Some (obj\<lparr>state := state_u8 new_state\<rparr>)
        \<and> cerr (world (transition_state k new_state m)) = cerr (world m))"
  by (simp add: transition_state_def Let_def put_cout_def put_cerr_def update_conv')


theorem transition_state_cases_witness:
  "map_of (heap (world (allocate 7 RED MARKED new_manager))) 999 = None
   \<and> heap (world (transition_state 999 EXPIRED (allocate 7 RED MARKED new_manager)))
       = [(7, \<lparr>id_obj = 7, zone_mask = 1, state = 6\<rparr>)]
   \<and> cerr (world (transition_state 999 EXPIRED (allocate 7 RED MARKED new_manager)))
       = ''Error: Cannot transition state. Object 999 not found.\<newline>''
   \<and> map_of (heap (world (transition_state 7 EXPIRED (allocate 7 RED MARKED new_manager)))) 7
       = Some \<lparr>id_obj = 7, zone_mask = 1, state = 7\<rparr>"
  using transition_state_cases [of "allocate 7 RED MARKED new_manager" 999 EXPIRED]
    transition_state_cases [of "allocate 7 RED MARKED new_manager" 7 EXPIRED]
  by (simp add: world_new_allocate_7 show_u32_def show_nat.simps digit_char_def)

end
